theory Spec2Isabelle
  imports Complex_Main
begin

section \<open>JMA instrumental seismic intensity (shindo.py)\<close>

text \<open>
  A shallow embedding of \<^verbatim>\<open>shindo.py\<close>. Python floats and NumPy float64/complex128
  values are modelled as exact reals and complex numbers, so the statements below are
  about the algorithm under exact arithmetic; the one exception is the search in double
  precision, where every operation is rounded as the machine rounds it. An ndarray of
  shape (N, 3)
  is a list of N triples (north-south, east-west, up-down); a one-dimensional ndarray
  is a list. Names with a leading underscore in the source lose it here
  (\<^verbatim>\<open>_search_aval\<close> is \<open>search_aval\<close>, \<^verbatim>\<open>_filter\<close> is \<open>filter_spectra\<close>).
\<close>

subsection \<open>The search for the a value\<close>

text \<open>\<^verbatim>\<open>np.count_nonzero\<close> on a boolean array counts its True entries.\<close>

definition count_nonzero :: "bool list \<Rightarrow> nat" where
  "count_nonzero bs = length (filter (\<lambda>b. b) bs)"

text \<open>The two constants of \<^verbatim>\<open>_search_aval\<close>: \<^verbatim>\<open>T_ref = 0.3\<close> and \<^verbatim>\<open>epsilon = T_ref * 0.001\<close>.\<close>

definition T_ref :: real where
  "T_ref = 3 / 10"

definition epsilon :: real where
  "epsilon = T_ref * (1 / 1000)"

text \<open>\<^verbatim>\<open>T_above_aval = np.count_nonzero(a >= aval) * Ts\<close>\<close>

definition T_above_aval :: "real list \<Rightarrow> real \<Rightarrow> real \<Rightarrow> real" where
  "T_above_aval a Ts aval = real (count_nonzero (map (\<lambda>x. x \<ge> aval) a)) * Ts"

text \<open>
  The \<^verbatim>\<open>while True\<close> loop, as a function of the working estimate \<open>aval\<close>. The loop
  has no bound, so the result is an option: \<open>None\<close> is the loop that never reaches
  \<^verbatim>\<open>break\<close>.
\<close>

partial_function (option) search_loop :: "real list \<Rightarrow> real \<Rightarrow> real \<Rightarrow> real option" where
  "search_loop a Ts aval =
     (if T_above_aval a Ts aval < T_ref - epsilon then search_loop a Ts (aval - aval / 2)
      else if T_above_aval a Ts aval > T_ref + epsilon then search_loop a Ts (aval + aval / 2)
      else Some aval)"

definition search_aval :: "real list \<Rightarrow> real \<Rightarrow> real option" where
  "search_aval a Ts = search_loop a Ts 2000"

text \<open>
  The same loop body with a counter: \<open>estimate_from a Ts aval n\<close> is the working
  estimate at the start of iteration \<open>n\<close> of the loop started at \<open>aval\<close>, and \<open>None\<close>
  once the loop has left through \<^verbatim>\<open>break\<close> before that iteration.
\<close>

fun estimate_from :: "real list \<Rightarrow> real \<Rightarrow> real \<Rightarrow> nat \<Rightarrow> real option" where
  "estimate_from a Ts aval 0 = Some aval"
| "estimate_from a Ts aval (Suc n) =
     (if T_above_aval a Ts aval < T_ref - epsilon then estimate_from a Ts (aval - aval / 2) n
      else if T_above_aval a Ts aval > T_ref + epsilon then estimate_from a Ts (aval + aval / 2) n
      else None)"


subsection \<open>Classification\<close>




subsection \<open>The filter on the spectra\<close>

text \<open>The three weighting curves of \<^verbatim>\<open>_filter\<close>, at one frequency.\<close>

definition W_pe :: "real \<Rightarrow> real" where
  "W_pe f = sqrt (1 / (f + 0.0001))"

definition W_hc :: "real \<Rightarrow> real" where
  "W_hc f =
     (let x = f / 10
      in 1 / sqrt (1 + 0.694 * x ^ 2 + 0.241 * x ^ 4 + 0.0557 * x ^ 6
                   + 0.009664 * x ^ 8 + 0.00134 * x ^ 10 + 0.000155 * x ^ 12))"

definition W_lc :: "real \<Rightarrow> real" where
  "W_lc f = sqrt (1 - exp (- ((f / 0.5) ^ 3)))"

text \<open>
  The array \<^verbatim>\<open>W_pe * W_hc * W_lc\<close> for a spectrum of \<open>N\<close> rows:
  \<^verbatim>\<open>k = np.arange(N)\<close>, \<^verbatim>\<open>f = k / (N * Ts * 2)\<close>, and the curves applied elementwise.
\<close>

definition filter_weights :: "nat \<Rightarrow> real \<Rightarrow> real list" where
  "filter_weights N Ts =
     (let k = [0..<N];
          f = map (\<lambda>k. real k / (real N * Ts * 2)) k
      in map (\<lambda>f. W_pe f * W_hc f * W_lc f) f)"

text \<open>The in-place products \<^verbatim>\<open>A[:,0] *= W\<close>, \<^verbatim>\<open>A[:,1] *= W\<close> and \<^verbatim>\<open>A[:,2] *= W\<close>.\<close>

definition imul_col0 :: "real list \<Rightarrow> (complex \<times> complex \<times> complex) list \<Rightarrow> (complex \<times> complex \<times> complex) list" where
  "imul_col0 W A = map2 (\<lambda>w (x, y, z). (x * complex_of_real w, y, z)) W A"

definition imul_col1 :: "real list \<Rightarrow> (complex \<times> complex \<times> complex) list \<Rightarrow> (complex \<times> complex \<times> complex) list" where
  "imul_col1 W A = map2 (\<lambda>w (x, y, z). (x, y * complex_of_real w, z)) W A"

definition imul_col2 :: "real list \<Rightarrow> (complex \<times> complex \<times> complex) list \<Rightarrow> (complex \<times> complex \<times> complex) list" where
  "imul_col2 W A = map2 (\<lambda>w (x, y, z). (x, y, z * complex_of_real w)) W A"

text \<open>\<^verbatim>\<open>_filter\<close> on the value of the array: \<open>N = len(A)\<close> is the number of rows of the spectrum.\<close>

definition filter_spectra :: "(complex \<times> complex \<times> complex) list \<Rightarrow> real \<Rightarrow> (complex \<times> complex \<times> complex) list" where
  "filter_spectra A Ts =
     (let N = length A;
          W = filter_weights N Ts
      in imul_col2 W (imul_col1 W (imul_col0 W A)))"

subsection \<open>The transforms of NumPy\<close>

text \<open>
  \<^verbatim>\<open>np.fft.rfft\<close> and \<^verbatim>\<open>np.fft.irfft\<close> are library code. They are modelled by
  the discrete Fourier transform that NumPy documents: \<open>n\<close> real samples give
  \<open>n div 2 + 1\<close> bins, \<open>m\<close> bins give \<open>2 * (m - 1)\<close> real samples (the input is read as
  one half of a Hermitian spectrum), and fewer than one point raises ValueError.
\<close>

datatype error = ValueError | TypeError

definition rfft_column :: "real list \<Rightarrow> complex list" where
  "rfft_column x =
     (let n = length x
      in map (\<lambda>k. sum_list (map (\<lambda>m. complex_of_real (x ! m) * cis (- (2 * pi * real k * real m / real n))) [0..<n]))
             [0..<n div 2 + 1])"

definition irfft_column :: "complex list \<Rightarrow> real list" where
  "irfft_column X =
     (let m = length X;
          n = 2 * (m - 1)
      in map (\<lambda>j. (Re (X ! 0)
                    + sum_list (map (\<lambda>k. 2 * Re (X ! k * cis (2 * pi * real j * real k / real n))) [1..<m - 1])
                    + Re (X ! (m - 1)) * cos (pi * real j)) / real n)
             [0..<n])"

definition rfft :: "(real \<times> real \<times> real) list \<Rightarrow> error + (complex \<times> complex \<times> complex) list" where
  "rfft a =
     (if length a < 1 then Inl ValueError
      else Inr (zip (rfft_column (map fst a))
                 (zip (rfft_column (map (fst \<circ> snd) a)) (rfft_column (map (snd \<circ> snd) a)))))"

definition irfft :: "(complex \<times> complex \<times> complex) list \<Rightarrow> error + (real \<times> real \<times> real) list" where
  "irfft A =
     (if 2 * (length A - 1) < 1 then Inl ValueError
      else Inr (zip (irfft_column (map fst A))
                 (zip (irfft_column (map (fst \<circ> snd) A)) (irfft_column (map (snd \<circ> snd) A)))))"

subsection \<open>The intensity\<close>

text \<open>\<^verbatim>\<open>np.sqrt(np.sum(afil**2, axis = 1))\<close>\<close>

definition total_accel :: "(real \<times> real \<times> real) list \<Rightarrow> real list" where
  "total_accel afil = map (\<lambda>(x, y, z). sqrt (x ^ 2 + y ^ 2 + z ^ 2)) afil"

text \<open>
  \<^verbatim>\<open>np.round(x, decimals = d)\<close> is \<^verbatim>\<open>rint(x * 10**d) / 10**d\<close>, where \<^verbatim>\<open>rint\<close> rounds
  to the nearest integer and a tie to the even one.
\<close>

definition rint :: "real \<Rightarrow> real" where
  "rint x =
     (let n = \<lfloor>x\<rfloor>; d = x - of_int n
      in if d < 1 / 2 then of_int n
         else if d > 1 / 2 then of_int (n + 1)
         else if even n then of_int n else of_int (n + 1))"

definition np_round :: "real \<Rightarrow> nat \<Rightarrow> real" where
  "np_round x decimals = rint (x * 10 ^ decimals) / 10 ^ decimals"

text \<open>The last two statements of \<^verbatim>\<open>getShindo\<close>, from the a value to the intensity.\<close>

definition intensity_of :: "real \<Rightarrow> real" where
  "intensity_of aval =
     (let I_raw = 2 * log 10 aval + 0.94;
          I = of_int \<lfloor>np_round I_raw 2 * 10\<rfloor> / 10
      in I)"

text \<open>
  \<^verbatim>\<open>getShindo\<close> on the values of the arrays. The result is \<open>None\<close> when the search
  never returns, \<open>Some (Inl e)\<close> when a transform raises \<open>e\<close>, and \<open>Some (Inr I)\<close>
  when the function returns \<open>I\<close>.
\<close>

definition getShindo :: "(real \<times> real \<times> real) list \<Rightarrow> real \<Rightarrow> (error + real) option" where
  "getShindo a Ts =
     (case rfft a of
        Inl e \<Rightarrow> Some (Inl e)
      | Inr A \<Rightarrow>
          (case irfft (filter_spectra A Ts) of
             Inl e \<Rightarrow> Some (Inl e)
           | Inr afil \<Rightarrow>
               (let afil_total = total_accel afil
                in case search_aval afil_total Ts of
                     None \<Rightarrow> None
                   | Some aval \<Rightarrow> Some (Inr (intensity_of aval)))))"

subsection \<open>Arrays as objects\<close>

text \<open>
  To speak about mutation, an ndarray is an object in a store. The store is a list of
  arrays, an address is an index into it, and creating an array appends it. A name
  bound to an array holds its address.
\<close>

datatype ndarray =
    Real3 "(real \<times> real \<times> real) list"
  | Complex3 "(complex \<times> complex \<times> complex) list"
  | Real1 "real list"

type_synonym store = "ndarray list"

definition lookup :: "store \<Rightarrow> nat \<Rightarrow> ndarray option" where
  "lookup h p = (if p < length h then Some (h ! p) else None)"

definition new_array :: "ndarray \<Rightarrow> store \<Rightarrow> nat \<times> store" where
  "new_array v h = (length h, h @ [v])"

text \<open>
  \<^verbatim>\<open>_filter(A, Ts)\<close> on the store: the three statements \<^verbatim>\<open>A[:,c] *= W\<close> write to the
  array at address \<open>A\<close>, one after the other. Called on anything else than a complex
  array it fails.
\<close>

definition imul_at :: "(real list \<Rightarrow> (complex \<times> complex \<times> complex) list \<Rightarrow> (complex \<times> complex \<times> complex) list)
    \<Rightarrow> real list \<Rightarrow> nat \<Rightarrow> store \<Rightarrow> error + store" where
  "imul_at imul W A h =
     (case lookup h A of
        Some (Complex3 rows) \<Rightarrow> Inr (h[A := Complex3 (imul W rows)])
      | _ \<Rightarrow> Inl TypeError)"

definition filter_store :: "nat \<Rightarrow> real \<Rightarrow> store \<Rightarrow> error + store" where
  "filter_store A Ts h =
     (case lookup h A of
        Some (Complex3 rows) \<Rightarrow>
          (let N = length rows;
               W = filter_weights N Ts
           in case imul_at imul_col0 W A h of
                Inl e \<Rightarrow> Inl e
              | Inr h1 \<Rightarrow>
                  (case imul_at imul_col1 W A h1 of
                     Inl e \<Rightarrow> Inl e
                   | Inr h2 \<Rightarrow> imul_at imul_col2 W A h2))
      | _ \<Rightarrow> Inl TypeError)"

text \<open>
  \<^verbatim>\<open>getShindo(a, Ts)\<close> on the store: \<open>a\<close> is the address of the caller's array. The
  transforms, \<^verbatim>\<open>afil**2\<close>, \<^verbatim>\<open>np.sum\<close> and \<^verbatim>\<open>np.sqrt\<close> return new arrays. The result
  pairs the final store with the outcome.
\<close>

definition getShindo_store :: "nat \<Rightarrow> real \<Rightarrow> store \<Rightarrow> (store \<times> (error + real)) option" where
  "getShindo_store a Ts h =
     (case lookup h a of
        Some (Real3 samples) \<Rightarrow>
          (case rfft samples of
             Inl e \<Rightarrow> Some (h, Inl e)
           | Inr spectrum \<Rightarrow>
               (let (A, h1) = new_array (Complex3 spectrum) h
                in case filter_store A Ts h1 of
                     Inl e \<Rightarrow> Some (h1, Inl e)
                   | Inr h2 \<Rightarrow>
                       (case lookup h2 A of
                          Some (Complex3 filtered) \<Rightarrow>
                            (case irfft filtered of
                               Inl e \<Rightarrow> Some (h2, Inl e)
                             | Inr rows \<Rightarrow>
                                 (let (afil, h3) = new_array (Real3 rows) h2;
                                      (afil_total, h4) = new_array (Real1 (total_accel rows)) h3
                                  in case search_aval (total_accel rows) Ts of
                                       None \<Rightarrow> None
                                     | Some aval \<Rightarrow> Some (h4, Inr (intensity_of aval))))
                        | _ \<Rightarrow> Some (h2, Inl TypeError))))
      | _ \<Rightarrow> Some (h, Inl TypeError))"

subsection \<open>The search in double precision\<close>

text \<open>
  A Python float is an IEEE 754 binary64 number, and every arithmetic operation on
  floats rounds its exact result to the nearest one, a tie to the even mantissa.
  \<open>fl x\<close> is that rounding of the real \<open>x\<close>: the exponent of \<open>x\<close> (not below \<open>-1022\<close>,
  where the subnormal numbers begin) fixes the spacing \<open>ulp\<close> of the floats around \<open>x\<close>,
  and \<open>x\<close> is rounded to a multiple of it. The exponent has no upper limit here: a
  result of magnitude \<open>2 ^ 1024\<close> or more stands for an infinity of the machine.
\<close>

definition fl :: "real \<Rightarrow> real" where
  "fl x =
     (if x = 0 then 0
      else let e = max \<lfloor>log 2 \<bar>x\<bar>\<rfloor> (- 1022);
               ulp = 2 powr (real_of_int e - 52)
           in rint (x / ulp) * ulp)"






subsection \<open>Facts about the search\<close>

lemma count_threshold_mono:
  "(t::real) \<le> t' \<Longrightarrow> count_nonzero (map (\<lambda>x. x \<ge> t') a) \<le> count_nonzero (map (\<lambda>x. x \<ge> t) a)"
  by (induction a) (auto simp: count_nonzero_def)

lemma count_pointwise_mono:
  "list_all2 (\<lambda>x y. y \<le> x) A B \<Longrightarrow>
   count_nonzero (map (\<lambda>x. x \<ge> (t::real)) B) \<le> count_nonzero (map (\<lambda>x. x \<ge> t) A)"
  by (induction rule: list_all2_induct) (auto simp: count_nonzero_def)

lemma T_above_threshold_mono:
  "0 \<le> Ts \<Longrightarrow> t \<le> t' \<Longrightarrow> T_above_aval a Ts t' \<le> T_above_aval a Ts t"
  unfolding T_above_aval_def
  by (intro mult_right_mono) (auto simp: count_threshold_mono)

lemma T_above_pointwise_mono:
  "0 \<le> Ts \<Longrightarrow> list_all2 (\<lambda>x y. y \<le> x) A B \<Longrightarrow> T_above_aval B Ts t \<le> T_above_aval A Ts t"
  unfolding T_above_aval_def
  by (intro mult_right_mono) (auto simp: count_pointwise_mono)

lemma T_above_nonpos: "Ts \<le> 0 \<Longrightarrow> T_above_aval a Ts t \<le> 0"
  unfolding T_above_aval_def by (simp add: mult_nonneg_nonpos)

lemma band_pos: "0 < T_ref - epsilon"
  by (simp add: T_ref_def epsilon_def)

lemma search_loop_accepted:
  assumes "search_loop a Ts aval = Some v"
  shows "T_ref - epsilon \<le> T_above_aval a Ts v \<and> T_above_aval a Ts v \<le> T_ref + epsilon"
  by (rule search_loop.raw_induct
        [where P = "\<lambda>a Ts aval v. T_ref - epsilon \<le> T_above_aval a Ts v \<and>
                                  T_above_aval a Ts v \<le> T_ref + epsilon", OF _ assms])
     (auto split: if_splits)

lemma search_loop_pos_aux:
  assumes "search_loop a Ts aval = Some v"
  shows "0 < aval \<longrightarrow> 0 < v"
  by (rule search_loop.raw_induct [where P = "\<lambda>a Ts aval v. 0 < aval \<longrightarrow> 0 < v", OF _ assms])
     (auto split: if_splits)

lemma search_loop_pos:
  "search_loop a Ts aval = Some v \<Longrightarrow> 0 < aval \<Longrightarrow> 0 < v"
  using search_loop_pos_aux by blast


lemma search_loop_estimate:
  assumes "search_loop a Ts aval = Some v"
  shows "\<exists>n. estimate_from a Ts aval n = Some v \<and> estimate_from a Ts aval (Suc n) = None"
proof (rule search_loop.raw_induct
        [where P = "\<lambda>a Ts aval v. \<exists>n. estimate_from a Ts aval n = Some v \<and>
                                      estimate_from a Ts aval (Suc n) = None", OF _ assms], goal_cases)
  case (1 f a Ts aval v)
  show ?case
  proof (cases "T_above_aval a Ts aval < T_ref - epsilon")
    case True
    with 1(2) have "f a Ts (aval - aval / 2) = Some v" by simp
    from 1(1)[OF this] obtain n where
      "estimate_from a Ts (aval - aval / 2) n = Some v"
      "estimate_from a Ts (aval - aval / 2) (Suc n) = None" by blast
    with True have "estimate_from a Ts aval (Suc n) = Some v \<and> estimate_from a Ts aval (Suc (Suc n)) = None"
      by simp
    then show ?thesis by blast
  next
    case False
    note nothigh = this
    show ?thesis
    proof (cases "T_above_aval a Ts aval > T_ref + epsilon")
      case True
      with nothigh 1(2) have "f a Ts (aval + aval / 2) = Some v" by simp
      from 1(1)[OF this] obtain n where
        "estimate_from a Ts (aval + aval / 2) n = Some v"
        "estimate_from a Ts (aval + aval / 2) (Suc n) = None" by blast
      with True nothigh have "estimate_from a Ts aval (Suc n) = Some v \<and> estimate_from a Ts aval (Suc (Suc n)) = None"
        by simp
      then show ?thesis by blast
    next
      case False
      with nothigh 1(2) have "v = aval" by simp
      with False nothigh have "estimate_from a Ts aval 0 = Some v \<and> estimate_from a Ts aval (Suc 0) = None"
        by simp
      then show ?thesis by blast
    qed
  qed
qed

lemma estimate_search_loop:
  "estimate_from a Ts aval n = Some v \<Longrightarrow> estimate_from a Ts aval (Suc n) = None \<Longrightarrow>
   search_loop a Ts aval = Some v"
proof (induction n arbitrary: aval)
  case 0
  then show ?case by (subst search_loop.simps) (auto split: if_splits)
next
  case (Suc n)
  show ?case
  proof (cases "T_above_aval a Ts aval < T_ref - epsilon")
    case True
    with Suc.prems have "estimate_from a Ts (aval - aval / 2) n = Some v"
      "estimate_from a Ts (aval - aval / 2) (Suc n) = None" by auto
    from Suc.IH[OF this] True show ?thesis by (subst search_loop.simps) simp
  next
    case False
    note nothigh = this
    show ?thesis
    proof (cases "T_above_aval a Ts aval > T_ref + epsilon")
      case True
      with nothigh Suc.prems have "estimate_from a Ts (aval + aval / 2) n = Some v"
        "estimate_from a Ts (aval + aval / 2) (Suc n) = None" by auto
      from Suc.IH[OF this] True nothigh show ?thesis by (subst search_loop.simps) simp
    next
      case False
      with nothigh Suc.prems show ?thesis by simp
    qed
  qed
qed

lemma estimate_from_pos:
  "estimate_from a Ts aval n = Some v \<Longrightarrow> 0 < aval \<Longrightarrow> 0 < v"
  by (induction n arbitrary: aval) (auto split: if_splits)

lemma T_above_zeros: "0 < aval \<Longrightarrow> T_above_aval (replicate n 0) Ts aval = 0"
  by (simp add: T_above_aval_def count_nonzero_def)

lemma estimate_zeros:
  "0 < aval \<Longrightarrow> estimate_from (replicate m 0) Ts aval n = Some (aval / 2 ^ n)"
proof (induction n arbitrary: aval)
  case 0
  then show ?case by simp
next
  case (Suc n)
  have "aval - aval / 2 = aval / 2" by simp
  with Suc.prems Suc.IH[of "aval / 2"] band_pos show ?case
    by (simp add: T_above_zeros)
qed

lemma search_loop_zeros:
  assumes "0 < aval" shows "search_loop (replicate m 0) Ts aval = None"
proof (cases "search_loop (replicate m 0) Ts aval")
  case None
  then show ?thesis .
next
  case (Some v)
  from search_loop_pos[OF Some assms] have "0 < v" .
  then have "T_above_aval (replicate m 0) Ts v = 0" by (rule T_above_zeros)
  with search_loop_accepted[OF Some] band_pos show ?thesis by linarith
qed

lemma search_loop_mono_aux:
  assumes "search_loop A Ts aval = Some vA"
  shows "(T_ref - epsilon \<le> T_above_aval A Ts vA \<and> T_above_aval A Ts vA \<le> T_ref + epsilon) \<and>
   (\<forall>B vB. list_all2 (\<lambda>x y. y \<le> x) A B \<longrightarrow> search_loop B Ts aval = Some vB \<longrightarrow> vB \<le> vA)"
proof (rule search_loop.raw_induct
        [where P = "\<lambda>A Ts aval vA.
           (T_ref - epsilon \<le> T_above_aval A Ts vA \<and> T_above_aval A Ts vA \<le> T_ref + epsilon) \<and>
           (\<forall>B vB. list_all2 (\<lambda>x y. y \<le> x) A B \<longrightarrow> search_loop B Ts aval = Some vB \<longrightarrow> vB \<le> vA)",
         OF _ assms], goal_cases)
  case (1 f A Ts aval vA)
  show ?case
  proof (cases "0 \<le> Ts")
    case False
    then have np: "\<And>t. T_above_aval A Ts t \<le> 0" by (simp add: T_above_nonpos)
    with band_pos have th: "T_above_aval A Ts aval < T_ref - epsilon"
      by (meson less_le_trans not_le order_trans)
    with 1(2) have "f A Ts (aval - aval / 2) = Some vA" by simp
    from 1(1)[OF this] np[of vA] band_pos show ?thesis by linarith
  next
    case Ts: True
    have accB: "\<And>B v0 vB. search_loop B Ts v0 = Some vB \<Longrightarrow>
        T_ref - epsilon \<le> T_above_aval B Ts vB \<and> T_above_aval B Ts vB \<le> T_ref + epsilon"
      by (rule search_loop_accepted)
    show ?thesis
    proof (cases "T_above_aval A Ts aval < T_ref - epsilon")
      case high: True
      with 1(2) have fA: "f A Ts (aval - aval / 2) = Some vA" by simp
      note IH = 1(1)[OF fA]
      have "vB \<le> vA" if le: "list_all2 (\<lambda>x y. y \<le> x) A B" and sB: "search_loop B Ts aval = Some vB" for B vB
      proof -
        from T_above_pointwise_mono[OF Ts le, of aval] high
        have "T_above_aval B Ts aval < T_ref - epsilon" by linarith
        with sB have "search_loop B Ts (aval - aval / 2) = Some vB"
          by (subst (asm) search_loop.simps) simp
        with IH le show ?thesis by blast
      qed
      with IH show ?thesis by blast
    next
      case nothigh: False
      show ?thesis
      proof (cases "T_above_aval A Ts aval > T_ref + epsilon")
        case low: True
        with nothigh 1(2) have fA: "f A Ts (aval + aval / 2) = Some vA" by simp
        note IH = 1(1)[OF fA]
        have gtA: "aval < vA"
        proof (rule ccontr)
          assume "\<not> aval < vA"
          then have "T_above_aval A Ts aval \<le> T_above_aval A Ts vA"
            using T_above_threshold_mono[OF Ts, of vA aval A] by simp
          with IH low show False by linarith
        qed
        have "vB \<le> vA" if le: "list_all2 (\<lambda>x y. y \<le> x) A B" and sB: "search_loop B Ts aval = Some vB" for B vB
        proof (cases "T_above_aval B Ts aval < T_ref - epsilon")
          case True
          have "vB < aval"
          proof (rule ccontr)
            assume "\<not> vB < aval"
            then have "T_above_aval B Ts vB \<le> T_above_aval B Ts aval"
              using T_above_threshold_mono[OF Ts, of aval vB B] by simp
            with accB[OF sB] True show False by linarith
          qed
          with gtA show ?thesis by linarith
        next
          case Bnothigh: False
          show ?thesis
          proof (cases "T_above_aval B Ts aval > T_ref + epsilon")
            case True
            with Bnothigh sB have "search_loop B Ts (aval + aval / 2) = Some vB"
              by (subst (asm) search_loop.simps) simp
            with IH le show ?thesis by blast
          next
            case False
            with Bnothigh sB have "vB = aval"
              by (subst (asm) search_loop.simps) simp
            with gtA show ?thesis by simp
          qed
        qed
        with IH show ?thesis by blast
      next
        case notlow: False
        with nothigh 1(2) have vA: "vA = aval" by simp
        have "vB \<le> vA" if le: "list_all2 (\<lambda>x y. y \<le> x) A B" and sB: "search_loop B Ts aval = Some vB" for B vB
        proof (cases "T_above_aval B Ts aval < T_ref - epsilon")
          case True
          have "vB < aval"
          proof (rule ccontr)
            assume "\<not> vB < aval"
            then have "T_above_aval B Ts vB \<le> T_above_aval B Ts aval"
              using T_above_threshold_mono[OF Ts, of aval vB B] by simp
            with accB[OF sB] True show False by linarith
          qed
          with vA show ?thesis by simp
        next
          case Bnothigh: False
          from T_above_pointwise_mono[OF Ts le, of aval] notlow
          have "\<not> T_above_aval B Ts aval > T_ref + epsilon" by linarith
          with Bnothigh sB have "vB = aval"
            by (subst (asm) search_loop.simps) simp
          with vA show ?thesis by simp
        qed
        with vA nothigh notlow show ?thesis by auto
      qed
    qed
  qed
qed


lemma search_loop_mono:
  assumes "search_loop A Ts aval = Some vA" and "list_all2 (\<lambda>x y. y \<le> x) A B"
    and "search_loop B Ts aval = Some vB"
  shows "vB \<le> vA"
  using search_loop_mono_aux[OF assms(1)] assms(2,3) by blast

text \<open>One pass through the loop body, for evaluating the loop on given data.\<close>

lemma search_loop_too_high:
  "T_above_aval a Ts aval < T_ref - epsilon \<Longrightarrow>
   search_loop a Ts aval = search_loop a Ts (aval - aval / 2)"
  by (subst search_loop.simps) simp

lemma search_loop_too_low:
  "\<not> T_above_aval a Ts aval < T_ref - epsilon \<Longrightarrow> T_above_aval a Ts aval > T_ref + epsilon \<Longrightarrow>
   search_loop a Ts aval = search_loop a Ts (aval + aval / 2)"
  by (subst search_loop.simps) simp

lemma search_loop_found:
  "\<not> T_above_aval a Ts aval < T_ref - epsilon \<Longrightarrow> \<not> T_above_aval a Ts aval > T_ref + epsilon \<Longrightarrow>
   search_loop a Ts aval = Some aval"
  by (subst search_loop.simps) simp

lemmas search_eval = T_above_aval_def count_nonzero_def T_ref_def epsilon_def

lemma search_aval_run1: "search_aval [1000, 0] (3 / 10) = Some 1000"
proof -
  have "search_loop [1000, 0] (3 / 10) 2000 = search_loop [1000, 0] (3 / 10) (2000 - 2000 / 2)"
    by (rule search_loop_too_high) (simp add: search_eval)
  also have "\<dots> = search_loop [1000, 0] (3 / 10) 1000" by simp
  also have "\<dots> = Some 1000"
    by (rule search_loop_found) (simp_all add: search_eval)
  finally show ?thesis by (simp add: search_aval_def)
qed

lemma search_aval_run2: "search_aval [1000, 10] (3 / 10) = Some 1000"
proof -
  have "search_loop [1000, 10] (3 / 10) 2000 = search_loop [1000, 10] (3 / 10) (2000 - 2000 / 2)"
    by (rule search_loop_too_high) (simp add: search_eval)
  also have "\<dots> = search_loop [1000, 10] (3 / 10) 1000" by simp
  also have "\<dots> = Some 1000"
    by (rule search_loop_found) (simp_all add: search_eval)
  finally show ?thesis by (simp add: search_aval_def)
qed

lemma search_aval_run3: "search_aval [600, 0] (3 / 10) = Some 500"
proof -
  have "search_loop [600, 0] (3 / 10) 2000 = search_loop [600, 0] (3 / 10) (2000 - 2000 / 2)"
    by (rule search_loop_too_high) (simp add: search_eval)
  also have "\<dots> = search_loop [600, 0] (3 / 10) 1000" by simp
  also have "\<dots> = search_loop [600, 0] (3 / 10) (1000 - 1000 / 2)"
    by (rule search_loop_too_high) (simp add: search_eval)
  also have "\<dots> = search_loop [600, 0] (3 / 10) 500" by simp
  also have "\<dots> = Some 500"
    by (rule search_loop_found) (simp_all add: search_eval)
  finally show ?thesis by (simp add: search_aval_def)
qed

lemma estimate_from_step:
  "estimate_from a Ts aval (Suc n) =
     (case estimate_from a Ts aval n of None \<Rightarrow> None | Some w \<Rightarrow> estimate_from a Ts w (Suc 0))"
proof (induction n arbitrary: aval)
  case 0
  show ?case by simp
next
  case (Suc n)
  let ?next = "\<lambda>r. case r of None \<Rightarrow> None | Some w \<Rightarrow> estimate_from a Ts w (Suc 0)"
  have unfold: "estimate_from a Ts aval (Suc m) =
     (if T_above_aval a Ts aval < T_ref - epsilon then estimate_from a Ts (aval - aval / 2) m
      else if T_above_aval a Ts aval > T_ref + epsilon then estimate_from a Ts (aval + aval / 2) m
      else None)" for m
    by (rule estimate_from.simps(2))
  show ?case
  proof (cases "T_above_aval a Ts aval < T_ref - epsilon")
    case True
    then have "estimate_from a Ts aval (Suc (Suc n)) = estimate_from a Ts (aval - aval / 2) (Suc n)"
      by (simp only: unfold[of "Suc n"] if_True)
    also have "\<dots> = ?next (estimate_from a Ts (aval - aval / 2) n)" by (rule Suc.IH)
    also from True have "estimate_from a Ts (aval - aval / 2) n = estimate_from a Ts aval (Suc n)"
      by (simp only: unfold[of n] if_True)
    finally show ?thesis .
  next
    case nothigh: False
    show ?thesis
    proof (cases "T_above_aval a Ts aval > T_ref + epsilon")
      case True
      with nothigh have "estimate_from a Ts aval (Suc (Suc n)) = estimate_from a Ts (aval + aval / 2) (Suc n)"
        by (simp only: unfold[of "Suc n"] if_True if_False)
      also have "\<dots> = ?next (estimate_from a Ts (aval + aval / 2) n)" by (rule Suc.IH)
      also from True nothigh have "estimate_from a Ts (aval + aval / 2) n = estimate_from a Ts aval (Suc n)"
        by (simp only: unfold[of n] if_True if_False)
      finally show ?thesis .
    next
      case False
      with nothigh have "estimate_from a Ts aval (Suc (Suc n)) = None"
        "estimate_from a Ts aval (Suc n) = None"
        by (simp_all only: unfold if_False)
      then show ?thesis by (simp only: option.case)
    qed
  qed
qed

subsection \<open>Claims about the search\<close>

text \<open>
  C6. The search is not guaranteed to terminate: on a magnitude series of \<open>N\<close> zeros
  the loop never reaches \<^verbatim>\<open>break\<close>. At the start of every iteration \<open>n\<close> the loop is
  still running, its estimate is \<open>2000 / 2 ^ n\<close>, and the time above that estimate is
  below the acceptance band.
\<close>

theorem search_aval_zeros_diverges:
  "search_aval (replicate N 0) Ts = None \<and>
   estimate_from (replicate N 0) Ts 2000 n = Some (2000 / 2 ^ n) \<and>
   T_above_aval (replicate N 0) Ts (2000 / 2 ^ n) < T_ref - epsilon"
proof -
  have "search_aval (replicate N 0) Ts = None"
    unfolding search_aval_def by (rule search_loop_zeros) simp
  moreover have "estimate_from (replicate N 0) Ts 2000 n = Some (2000 / 2 ^ n)"
    by (rule estimate_zeros) simp
  moreover have "T_above_aval (replicate N 0) Ts (2000 / 2 ^ n) = 0"
    by (rule T_above_zeros) simp
  ultimately show ?thesis using band_pos by simp
qed

text \<open>
  C7. Monotonicity of the search: for two magnitude series \<open>A\<close> and \<open>B\<close> of equal
  length with every sample of \<open>A\<close> at least the corresponding sample of \<open>B\<close>, and the
  same sampling period, if \<^verbatim>\<open>_search_aval\<close> returns on both then the a value of \<open>A\<close>
  is at least the a value of \<open>B\<close>.
\<close>

theorem search_aval_monotone:
  assumes "length A = length B" and "\<forall>i < length A. B ! i \<le> A ! i"
    and "search_aval A Ts = Some vA" and "search_aval B Ts = Some vB"
  shows "vB \<le> vA"
proof -
  from assms(1,2) have "list_all2 (\<lambda>x y. y \<le> x) A B"
    by (simp add: list_all2_conv_all_nth)
  with assms(3,4) show ?thesis
    unfolding search_aval_def by (blast intro: search_loop_mono)
qed

theorem search_aval_monotone_witness:
  "length [1000, 10 :: real] = length [600, 0 :: real] \<and>
   [600, 0] ! 0 \<le> [1000, 10 :: real] ! 0 \<and> [600, 0] ! 1 \<le> [1000, 10 :: real] ! 1 \<and>
   search_aval [1000, 10] (3 / 10) = Some 1000 \<and>
   search_aval [600, 0] (3 / 10) = Some 500 \<and> (500 :: real) \<le> 1000"
proof -
  have len: "length [1000, 10 :: real] = length [600, 0 :: real]" by simp
  have le: "\<forall>i < length [1000, 10 :: real]. [600, 0] ! i \<le> [1000, 10 :: real] ! i"
    by (simp add: less_Suc_eq)
  from search_aval_monotone [OF len le search_aval_run2 search_aval_run3]
  show ?thesis using search_aval_run2 search_aval_run3 by simp
qed

text \<open>
  C10. The working estimate of \<^verbatim>\<open>_search_aval\<close> is strictly positive at every
  iteration: it starts at 2000, and an iteration that continues replaces the estimate
  \<open>w\<close> by \<open>w / 2\<close> or by \<open>3 * w / 2\<close>. Hence a value the search returns is strictly
  positive, and its logarithm to base 10 is defined (\<open>10\<close> to that power is the value).
\<close>

theorem search_aval_positive:
  "(estimate_from a Ts 2000 n = Some w \<longrightarrow>
      0 < w \<and>
      (estimate_from a Ts 2000 (Suc n) = None \<or>
       estimate_from a Ts 2000 (Suc n) = Some (w / 2) \<or>
       estimate_from a Ts 2000 (Suc n) = Some (3 * w / 2))) \<and>
   (search_aval a Ts = Some v \<longrightarrow> 0 < v \<and> 10 powr (log 10 v) = v)"
proof -
  have "0 < w" if "estimate_from a Ts 2000 n = Some w"
    using estimate_from_pos[OF that] by simp
  moreover have "estimate_from a Ts 2000 (Suc n) = None \<or>
       estimate_from a Ts 2000 (Suc n) = Some (w / 2) \<or>
       estimate_from a Ts 2000 (Suc n) = Some (3 * w / 2)" if "estimate_from a Ts 2000 n = Some w"
  proof -
    have "estimate_from a Ts 2000 (Suc n) = estimate_from a Ts w (Suc 0)"
      using that by (simp only: estimate_from_step[of a Ts 2000 n] option.case)
    also have "\<dots> =
       (if T_above_aval a Ts w < T_ref - epsilon then Some (w - w / 2)
        else if T_above_aval a Ts w > T_ref + epsilon then Some (w + w / 2)
        else None)" by simp
    finally have step: "estimate_from a Ts 2000 (Suc n) =
       (if T_above_aval a Ts w < T_ref - epsilon then Some (w - w / 2)
        else if T_above_aval a Ts w > T_ref + epsilon then Some (w + w / 2)
        else None)" .
    have "w - w / 2 = w / 2" "w + w / 2 = 3 * w / 2" by simp_all
    with step show ?thesis by (auto split: if_splits)
  qed
  moreover have "0 < v \<and> 10 powr (log 10 v) = v" if "search_aval a Ts = Some v"
  proof -
    from that have "search_loop a Ts 2000 = Some v" by (simp add: search_aval_def)
    from search_loop_pos[OF this] have "0 < v" by simp
    then show ?thesis by simp
  qed
  ultimately show ?thesis by blast
qed

theorem search_aval_positive_witness:
  "estimate_from [1000, 0] (3 / 10) 2000 0 = Some 2000 \<and> (0 :: real) < 2000 \<and>
   estimate_from [1000, 0] (3 / 10) 2000 (Suc 0) = Some (2000 / 2) \<and>
   search_aval [1000, 0] (3 / 10) = Some 1000 \<and> (0 :: real) < 1000 \<and>
   10 powr (log 10 1000) = (1000 :: real)"
proof -
  have e0: "estimate_from [1000, 0] (3 / 10) 2000 0 = Some 2000" by simp
  have e1: "estimate_from [1000, 0] (3 / 10) 2000 (Suc 0) = Some (2000 / 2)"
    by (simp add: search_eval)
  from search_aval_positive [of "[1000, 0]" "3 / 10" 0 2000 1000] e0 e1 search_aval_run1
  show ?thesis by simp
qed

subsection \<open>Facts about the filter\<close>

lemma length_filter_weights: "length (filter_weights N Ts) = N"
  by (simp add: filter_weights_def)

lemma nth_filter_weights:
  "k < N \<Longrightarrow> filter_weights N Ts ! k =
     W_pe (real k / (real N * Ts * 2)) * W_hc (real k / (real N * Ts * 2)) * W_lc (real k / (real N * Ts * 2))"
  by (simp add: filter_weights_def)

lemma length_imul_col:
  "length (imul_col0 W A) = min (length W) (length A)"
  "length (imul_col1 W A) = min (length W) (length A)"
  "length (imul_col2 W A) = min (length W) (length A)"
  by (simp_all add: imul_col0_def imul_col1_def imul_col2_def)

lemma nth_imul_col:
  assumes "k < length W" "k < length A" "A ! k = (x, y, z)"
  shows "imul_col0 W A ! k = (x * complex_of_real (W ! k), y, z)"
    and "imul_col1 W A ! k = (x, y * complex_of_real (W ! k), z)"
    and "imul_col2 W A ! k = (x, y, z * complex_of_real (W ! k))"
  using assms by (simp_all add: imul_col0_def imul_col1_def imul_col2_def)

lemma length_filter_spectra: "length (filter_spectra A Ts) = length A"
  by (simp add: filter_spectra_def Let_def length_imul_col length_filter_weights)

lemma nth_filter_spectra:
  assumes "k < length A" "A ! k = (x, y, z)"
  shows "filter_spectra A Ts ! k =
    (x * complex_of_real (filter_weights (length A) Ts ! k),
     y * complex_of_real (filter_weights (length A) Ts ! k),
     z * complex_of_real (filter_weights (length A) Ts ! k))"
proof -
  let ?W = "filter_weights (length A) Ts"
  have lW: "k < length ?W" using assms(1) by (simp add: length_filter_weights)
  have 0: "imul_col0 ?W A ! k = (x * complex_of_real (?W ! k), y, z)"
    by (rule nth_imul_col(1)[OF lW assms])
  have l0: "k < length (imul_col0 ?W A)" using lW assms(1) by (simp add: length_imul_col)
  have 1: "imul_col1 ?W (imul_col0 ?W A) ! k = (x * complex_of_real (?W ! k), y * complex_of_real (?W ! k), z)"
    by (rule nth_imul_col(2)[OF lW l0 0])
  have l1: "k < length (imul_col1 ?W (imul_col0 ?W A))" using lW l0 by (simp add: length_imul_col)
  have "imul_col2 ?W (imul_col1 ?W (imul_col0 ?W A)) ! k =
     (x * complex_of_real (?W ! k), y * complex_of_real (?W ! k), z * complex_of_real (?W ! k))"
    by (rule nth_imul_col(3)[OF lW l1 1])
  then show ?thesis by (simp add: filter_spectra_def Let_def)
qed

lemma one_minus_exp_bounds:
  assumes "0 \<le> (y::real)"
  shows "y / (1 + y) \<le> 1 - exp (- y)" and "1 - exp (- y) \<le> 1" and "0 \<le> 1 - exp (- y)"
proof -
  have "1 + y \<le> exp y" by (rule exp_ge_add_one_self)
  moreover have "0 < 1 + y" using assms by simp
  ultimately have "1 / exp y \<le> 1 / (1 + y)" by (simp add: frac_le)
  then have "exp (- y) \<le> 1 / (1 + y)" by (simp add: exp_minus inverse_eq_divide)
  moreover have "1 - 1 / (1 + y) = y / (1 + y)" using assms by (simp add: field_simps)
  ultimately show "y / (1 + y) \<le> 1 - exp (- y)" by linarith
  show "1 - exp (- y) \<le> 1" by simp
  from assms show "0 \<le> 1 - exp (- y)" by simp
qed

lemma hc_poly_ge1:
  "1 \<le> 1 + 0.694 * x ^ 2 + 0.241 * x ^ 4 + 0.0557 * x ^ 6
                   + 0.009664 * x ^ 8 + 0.00134 * x ^ 10 + 0.000155 * (x::real) ^ 12"
proof -
  have "0 \<le> x ^ 2" "0 \<le> x ^ 4" "0 \<le> x ^ 6" "0 \<le> x ^ 8" "0 \<le> x ^ 10" "0 \<le> x ^ 12"
    by simp_all
  then show ?thesis by simp
qed

lemma W_sq:
  assumes "0 \<le> f"
  shows "(W_pe f * W_hc f * W_lc f) ^ 2 =
     (1 / (f + 0.0001)) * (1 - exp (- ((f / 0.5) ^ 3)))
      / (1 + 0.694 * (f / 10) ^ 2 + 0.241 * (f / 10) ^ 4 + 0.0557 * (f / 10) ^ 6
                   + 0.009664 * (f / 10) ^ 8 + 0.00134 * (f / 10) ^ 10 + 0.000155 * (f / 10) ^ 12)"
proof -
  let ?q = "1 + 0.694 * (f / 10) ^ 2 + 0.241 * (f / 10) ^ 4 + 0.0557 * (f / 10) ^ 6
                   + 0.009664 * (f / 10) ^ 8 + 0.00134 * (f / 10) ^ 10 + 0.000155 * (f / 10) ^ 12"
  have q: "1 \<le> ?q" by (rule hc_poly_ge1)
  have r: "0 \<le> 1 - exp (- ((f / 0.5) ^ 3))"
    using assms by (intro one_minus_exp_bounds(3)) simp
  have p: "0 \<le> 1 / (f + 0.0001)" using assms by simp
  have "(W_pe f) ^ 2 = 1 / (f + 0.0001)"
    unfolding W_pe_def using p by (rule real_sqrt_pow2)
  moreover have "(W_hc f) ^ 2 = 1 / ?q"
    unfolding W_hc_def Let_def using q by (simp add: power_divide)
  moreover have "(W_lc f) ^ 2 = 1 - exp (- ((f / 0.5) ^ 3))"
    unfolding W_lc_def using r by (rule real_sqrt_pow2)
  ultimately show ?thesis by (simp add: power_mult_distrib)
qed

lemma W_nonneg: "0 \<le> f \<Longrightarrow> 0 \<le> W_pe f * W_hc f * W_lc f"
  unfolding W_pe_def W_hc_def W_lc_def Let_def
  using hc_poly_ge1[of "f / 10"] one_minus_exp_bounds(3)[of "(f / 0.5) ^ 3"]
  by (intro mult_nonneg_nonneg) simp_all

text \<open>Bounds on the weight at three frequencies, from \<open>1 + y \<le> exp y\<close>.\<close>

lemma W_at_1_less: "W_pe 1 * W_hc 1 * W_lc 1 < 1"
proof -
  let ?W = "W_pe 1 * W_hc 1 * W_lc 1"
  have q: "1 \<le> 1 + 0.694 * (1 / 10) ^ 2 + 0.241 * (1 / 10) ^ 4 + 0.0557 * (1 / 10) ^ 6
                   + 0.009664 * (1 / 10) ^ 8 + 0.00134 * (1 / 10) ^ 10 + 0.000155 * (1 / 10 :: real) ^ 12"
    by (rule hc_poly_ge1)
  have r: "1 - exp (- (((1::real) / 0.5) ^ 3)) \<le> 1" by simp
  have r0: "0 \<le> 1 - exp (- (((1::real) / 0.5) ^ 3))" by simp
  have "?W ^ 2 = (1 / (1 + 0.0001)) * (1 - exp (- (((1::real) / 0.5) ^ 3)))
      / (1 + 0.694 * (1 / 10) ^ 2 + 0.241 * (1 / 10) ^ 4 + 0.0557 * (1 / 10) ^ 6
                   + 0.009664 * (1 / 10) ^ 8 + 0.00134 * (1 / 10) ^ 10 + 0.000155 * (1 / 10) ^ 12)"
    by (rule W_sq) simp
  also have "\<dots> \<le> (1 / (1 + 0.0001)) * 1 / 1"
    using q r r0 by (intro frac_le mult_left_mono) simp_all
  also have "\<dots> < 1" by simp
  finally have "?W ^ 2 < 1 ^ 2" by simp
  then show ?thesis by (rule power2_less_imp_less) simp
qed

lemma W_at_3_4_greater: "1 < W_pe (3 / 4) * W_hc (3 / 4) * W_lc (3 / 4)"
proof -
  let ?W = "W_pe (3 / 4) * W_hc (3 / 4) * W_lc (3 / 4)"
  let ?q = "1 + 0.694 * (3 / 4 / 10) ^ 2 + 0.241 * (3 / 4 / 10) ^ 4 + 0.0557 * (3 / 4 / 10) ^ 6
                   + 0.009664 * (3 / 4 / 10) ^ 8 + 0.00134 * (3 / 4 / 10) ^ 10 + 0.000155 * (3 / 4 / 10 :: real) ^ 12"
  have q: "?q \<le> 1004 / 1000" by (simp add: power_divide)
  have q0: "0 < ?q" by (simp add: power_divide)
  have y: "((3 / 4 :: real) / 0.5) ^ 3 = 27 / 8" by (simp add: power_divide)
  have "(27 / 8 :: real) / (1 + 27 / 8) \<le> 1 - exp (- (27 / 8))"
    by (rule one_minus_exp_bounds(1)) simp
  then have r: "27 / 35 \<le> 1 - exp (- (((3 / 4 :: real) / 0.5) ^ 3))"
    unfolding y by simp
  have "(1::real) ^ 2 < (1 / (3 / 4 + 0.0001)) * (27 / 35) / (1004 / 1000)" by simp
  also have "\<dots> \<le> (1 / (3 / 4 + 0.0001)) * (1 - exp (- (((3 / 4 :: real) / 0.5) ^ 3))) / ?q"
    using q q0 r by (intro frac_le mult_left_mono mult_nonneg_nonneg) simp_all
  also have "\<dots> = ?W ^ 2" by (rule W_sq[symmetric]) simp
  finally have "(1::real) ^ 2 < ?W ^ 2" .
  then show ?thesis by (rule power2_less_imp_less) (simp add: W_nonneg)
qed

lemma W_at_5_3_ge: "1 / 5 \<le> W_pe (5 / 3) * W_hc (5 / 3) * W_lc (5 / 3)"
proof -
  let ?W = "W_pe (5 / 3) * W_hc (5 / 3) * W_lc (5 / 3)"
  let ?q = "1 + 0.694 * (5 / 3 / 10) ^ 2 + 0.241 * (5 / 3 / 10) ^ 4 + 0.0557 * (5 / 3 / 10) ^ 6
                   + 0.009664 * (5 / 3 / 10) ^ 8 + 0.00134 * (5 / 3 / 10) ^ 10 + 0.000155 * (5 / 3 / 10 :: real) ^ 12"
  have q: "?q \<le> 2" by (simp add: power_divide)
  have q0: "0 < ?q" by (simp add: power_divide)
  have y: "((5 / 3 :: real) / 0.5) ^ 3 = 1000 / 27" by (simp add: power_divide)
  have "(1000 / 27 :: real) / (1 + 1000 / 27) \<le> 1 - exp (- (1000 / 27))"
    by (rule one_minus_exp_bounds(1)) simp
  then have r: "1 / 2 \<le> 1 - exp (- (((5 / 3 :: real) / 0.5) ^ 3))"
    unfolding y by simp
  have "(1 / 5 :: real) ^ 2 \<le> (1 / (5 / 3 + 0.0001)) * (1 / 2) / 2" by (simp add: power2_eq_square)
  also have "\<dots> \<le> (1 / (5 / 3 + 0.0001)) * (1 - exp (- (((5 / 3 :: real) / 0.5) ^ 3))) / ?q"
    using q q0 r by (intro frac_le mult_left_mono mult_nonneg_nonneg) simp_all
  also have "\<dots> = ?W ^ 2" by (rule W_sq[symmetric]) simp
  finally have "(1 / 5 :: real) ^ 2 \<le> ?W ^ 2" .
  then show ?thesis by (rule power2_le_imp_le) (simp add: W_nonneg)
qed

lemma W_at_0: "W_pe 0 * W_hc 0 * W_lc 0 = 0"
  by (simp add: W_lc_def)

subsection \<open>Claims about the filter\<close>

text \<open>
  C1, as stated, fails. The claim evaluates the weight of bin \<open>k\<close> at
  \<open>k / (N * Ts * 2)\<close> with \<open>N\<close> the number of time-domain samples. For \<open>N = 4\<close> samples
  the spectrum has 3 bins; with \<open>Ts = 1/6\<close> the code scales bin 1 by the weight at
  frequency \<open>1 / (3 * (1/6) * 2) = 1\<close>, not at \<open>1 / (4 * (1/6) * 2) = 3/4\<close>.
\<close>

theorem filter_frequency_counterexample:
  "length [(1, 1, 1), (1, 1, 1), (1, 1, 1) :: complex \<times> complex \<times> complex] = 4 div 2 + 1 \<and>
   (0 :: real) < 1 / 6 \<and>
   filter_spectra [(1, 1, 1), (1, 1, 1), (1, 1, 1)] (1 / 6) ! 1 \<noteq>
     (1 * complex_of_real (W_pe (real 1 / (real 4 * (1 / 6) * 2)) * W_hc (real 1 / (real 4 * (1 / 6) * 2))
                           * W_lc (real 1 / (real 4 * (1 / 6) * 2))),
      1 * complex_of_real (W_pe (real 1 / (real 4 * (1 / 6) * 2)) * W_hc (real 1 / (real 4 * (1 / 6) * 2))
                           * W_lc (real 1 / (real 4 * (1 / 6) * 2))),
      1 * complex_of_real (W_pe (real 1 / (real 4 * (1 / 6) * 2)) * W_hc (real 1 / (real 4 * (1 / 6) * 2))
                           * W_lc (real 1 / (real 4 * (1 / 6) * 2))))"
proof -
  let ?A = "[(1, 1, 1), (1, 1, 1), (1, 1, 1) :: complex \<times> complex \<times> complex]"
  have w: "filter_weights (length ?A) (1 / 6) ! 1 = W_pe 1 * W_hc 1 * W_lc 1"
    by (simp add: nth_filter_weights)
  have "filter_spectra ?A (1 / 6) ! 1 =
      (1 * complex_of_real (filter_weights (length ?A) (1 / 6) ! 1),
       1 * complex_of_real (filter_weights (length ?A) (1 / 6) ! 1),
       1 * complex_of_real (filter_weights (length ?A) (1 / 6) ! 1))"
    by (rule nth_filter_spectra) simp_all
  then have code: "filter_spectra ?A (1 / 6) ! 1 =
      (complex_of_real (W_pe 1 * W_hc 1 * W_lc 1), complex_of_real (W_pe 1 * W_hc 1 * W_lc 1),
       complex_of_real (W_pe 1 * W_hc 1 * W_lc 1))"
    unfolding w by simp
  have f: "real 1 / (real 4 * (1 / 6) * 2) = 3 / 4" by simp
  have "W_pe 1 * W_hc 1 * W_lc 1 \<noteq> W_pe (3 / 4) * W_hc (3 / 4) * W_lc (3 / 4)"
    using W_at_1_less W_at_3_4_greater by linarith
  then have "complex_of_real (W_pe 1 * W_hc 1 * W_lc 1) \<noteq>
      complex_of_real (W_pe (3 / 4) * W_hc (3 / 4) * W_lc (3 / 4))"
    by (simp only: of_real_eq_iff not_False_eq_True)
  then show ?thesis unfolding f code by (simp del: of_real_mult)
qed

text \<open>
  C1, amended. In \<^verbatim>\<open>_filter\<close> the \<open>N\<close> of \<open>f = k / (N * Ts * 2)\<close> is \<^verbatim>\<open>len(A)\<close>, the
  number of bins of the spectrum: for a spectrum of \<open>N div 2 + 1\<close> bins (\<open>N\<close> time-domain
  samples) and \<open>Ts > 0\<close>, bin \<open>k\<close> of each channel is scaled by the weight at
  \<open>k / ((N div 2 + 1) * Ts * 2)\<close>.
\<close>

theorem filter_frequency:
  assumes "0 < Ts" and "length A = N div 2 + 1" and "k < length A" and "A ! k = (ns, ew, ud)"
    and "f = real k / (real (N div 2 + 1) * Ts * 2)"
  shows "filter_spectra A Ts ! k =
    (ns * complex_of_real (W_pe f * W_hc f * W_lc f),
     ew * complex_of_real (W_pe f * W_hc f * W_lc f),
     ud * complex_of_real (W_pe f * W_hc f * W_lc f))"
proof -
  from assms(2,3,5) have "filter_weights (length A) Ts ! k = W_pe f * W_hc f * W_lc f"
    by (simp add: nth_filter_weights)
  with nth_filter_spectra[OF assms(3,4), of Ts] show ?thesis by simp
qed

theorem filter_frequency_witness:
  "(0 :: real) < 1 / 6 \<and>
   length [(1, 1, 1), (1, 1, 1), (1, 1, 1) :: complex \<times> complex \<times> complex] = 4 div 2 + 1 \<and>
   1 < length [(1, 1, 1), (1, 1, 1), (1, 1, 1) :: complex \<times> complex \<times> complex] \<and>
   [(1, 1, 1), (1, 1, 1), (1, 1, 1) :: complex \<times> complex \<times> complex] ! 1 = (1, 1, 1) \<and>
   (1 :: real) = real 1 / (real (4 div 2 + 1) * (1 / 6) * 2) \<and>
   filter_spectra [(1, 1, 1), (1, 1, 1), (1, 1, 1)] (1 / 6) ! 1 =
    (1 * complex_of_real (W_pe 1 * W_hc 1 * W_lc 1),
     1 * complex_of_real (W_pe 1 * W_hc 1 * W_lc 1),
     1 * complex_of_real (W_pe 1 * W_hc 1 * W_lc 1))"
proof -
  let ?A = "[(1, 1, 1), (1, 1, 1), (1, 1, 1) :: complex \<times> complex \<times> complex]"
  have p1: "(0 :: real) < 1 / 6" by simp
  have p2: "length ?A = 4 div 2 + 1" by simp
  have p3: "1 < length ?A" by simp
  have p4: "?A ! 1 = (1, 1, 1)" by simp
  have p5: "(1 :: real) = real 1 / (real (4 div 2 + 1) * (1 / 6) * 2)" by simp
  from filter_frequency [OF p1 p2 p3 p4 p5] p1 p2 p3 p4 p5 show ?thesis by blast
qed

text \<open>
  C8. For \<open>Ts > 0\<close> the filter scales bin \<open>k\<close> of all three channels by one and the same
  real weight \<open>W = W_pe * W_hc * W_lc\<close> at the frequency \<open>f\<close> of the bin, with
  \<open>W_pe = sqrt (1 / (f + 0.0001))\<close>,
  \<open>W_hc = 1 / sqrt (1 + 0.694 x^2 + 0.241 x^4 + 0.0557 x^6 + 0.009664 x^8 + 0.00134 x^10 + 0.000155 x^12)\<close>
  for \<open>x = f / 10\<close>, and \<open>W_lc = sqrt (1 - exp (- (f / 0.5)^3))\<close>. The filter always
  succeeds: the spectrum keeps its length, no divisor is zero and no square root is
  taken of a negative number.
\<close>

theorem filter_shared_weight:
  assumes "0 < Ts" and "k < length A" and "A ! k = (ns, ew, ud)"
    and "f = real k / (real (length A) * Ts * 2)" and "x = f / 10"
    and "W = sqrt (1 / (f + 0.0001))
            * (1 / sqrt (1 + 0.694 * x ^ 2 + 0.241 * x ^ 4 + 0.0557 * x ^ 6
                         + 0.009664 * x ^ 8 + 0.00134 * x ^ 10 + 0.000155 * x ^ 12))
            * sqrt (1 - exp (- ((f / 0.5) ^ 3)))"
  shows "filter_spectra A Ts ! k =
           (ns * complex_of_real W, ew * complex_of_real W, ud * complex_of_real W) \<and>
         length (filter_spectra A Ts) = length A \<and>
         0 < real (length A) * Ts * 2 \<and> 0 < f + 0.0001 \<and>
         0 < sqrt (1 + 0.694 * x ^ 2 + 0.241 * x ^ 4 + 0.0557 * x ^ 6
                   + 0.009664 * x ^ 8 + 0.00134 * x ^ 10 + 0.000155 * x ^ 12) \<and>
         0 \<le> 1 - exp (- ((f / 0.5) ^ 3))"
proof -
  from assms(2) have len: "0 < real (length A)" by (cases A) simp_all
  with assms(1) have d: "0 < real (length A) * Ts * 2" by simp
  with assms(4) have f0: "0 \<le> f" by simp
  from assms(4,5,6) have "filter_weights (length A) Ts ! k = W"
    using assms(2) by (simp add: nth_filter_weights W_pe_def W_hc_def W_lc_def Let_def)
  with nth_filter_spectra[OF assms(2,3), of Ts]
  have "filter_spectra A Ts ! k =
           (ns * complex_of_real W, ew * complex_of_real W, ud * complex_of_real W)" by simp
  moreover have "0 < sqrt (1 + 0.694 * x ^ 2 + 0.241 * x ^ 4 + 0.0557 * x ^ 6
                   + 0.009664 * x ^ 8 + 0.00134 * x ^ 10 + 0.000155 * x ^ 12)"
    using hc_poly_ge1[of x] by (simp only: real_sqrt_gt_0_iff)
  moreover have "0 \<le> 1 - exp (- ((f / 0.5) ^ 3))"
    using f0 by (intro one_minus_exp_bounds(3)) simp
  moreover from f0 have "0 < f + 0.0001" by simp
  ultimately show ?thesis using d by (simp add: length_filter_spectra)
qed

theorem filter_shared_weight_witness:
  "(0 :: real) < 1 \<and>
   1 < length [(1, 2, 3), (4, 5, 6) :: complex \<times> complex \<times> complex] \<and>
   [(1, 2, 3), (4, 5, 6) :: complex \<times> complex \<times> complex] ! 1 = (4, 5, 6) \<and>
   (1 / 4 :: real) = real 1 / (real (length [(1, 2, 3), (4, 5, 6) :: complex \<times> complex \<times> complex]) * 1 * 2) \<and>
   (1 / 40 :: real) = 1 / 4 / 10 \<and>
   filter_spectra [(1, 2, 3), (4, 5, 6)] 1 ! 1 =
     (4 * complex_of_real (W_pe (1 / 4) * W_hc (1 / 4) * W_lc (1 / 4)),
      5 * complex_of_real (W_pe (1 / 4) * W_hc (1 / 4) * W_lc (1 / 4)),
      6 * complex_of_real (W_pe (1 / 4) * W_hc (1 / 4) * W_lc (1 / 4))) \<and>
   length (filter_spectra [(1, 2, 3), (4, 5, 6)] 1) =
     length [(1, 2, 3), (4, 5, 6) :: complex \<times> complex \<times> complex]"
proof -
  let ?A = "[(1, 2, 3), (4, 5, 6) :: complex \<times> complex \<times> complex]"
  have p1: "(0 :: real) < 1" by simp
  have p2: "1 < length ?A" by simp
  have p3: "?A ! 1 = (4, 5, 6)" by simp
  have p4: "(1 / 4 :: real) = real 1 / (real (length ?A) * 1 * 2)" by simp
  have p5: "(1 / 40 :: real) = 1 / 4 / 10" by simp
  have p6: "W_pe (1 / 4) * W_hc (1 / 4) * W_lc (1 / 4) =
      sqrt (1 / (1 / 4 + 0.0001))
            * (1 / sqrt (1 + 0.694 * (1 / 40) ^ 2 + 0.241 * (1 / 40) ^ 4 + 0.0557 * (1 / 40) ^ 6
                         + 0.009664 * (1 / 40) ^ 8 + 0.00134 * (1 / 40) ^ 10 + 0.000155 * (1 / 40) ^ 12))
            * sqrt (1 - exp (- ((1 / 4 / 0.5) ^ 3)))"
    unfolding W_pe_def W_hc_def W_lc_def Let_def p5[symmetric] by (rule refl)
  note r = filter_shared_weight [OF p1 p2 p3 p4 p5 p6]
  from r have c1: "filter_spectra ?A 1 ! 1 =
     (4 * complex_of_real (W_pe (1 / 4) * W_hc (1 / 4) * W_lc (1 / 4)),
      5 * complex_of_real (W_pe (1 / 4) * W_hc (1 / 4) * W_lc (1 / 4)),
      6 * complex_of_real (W_pe (1 / 4) * W_hc (1 / 4) * W_lc (1 / 4)))"
    by (rule conjunct1)
  from r have c2: "length (filter_spectra ?A 1) = length ?A"
    by (rule conjunct1 [OF conjunct2])
  show ?thesis
    by (intro conjI) (rule p1 p2 p3 p4 p5 c1 c2)+
qed

subsection \<open>Claims about the classification\<close>



subsection \<open>Facts about the transforms and the pipeline\<close>

lemma upt_2: "[0..<2] = [0, Suc 0]"
  by (simp add: upt_rec)

lemma cis_minus_pi: "cis (- pi) = - 1"
  by (simp add: complex_eq_iff)







lemma getShindo_value_iff:
  "getShindo a Ts = Some (Inr I) \<longleftrightarrow>
     (\<exists>A afil aval. rfft a = Inr A \<and> irfft (filter_spectra A Ts) = Inr afil \<and>
        search_aval (total_accel afil) Ts = Some aval \<and> I = intensity_of aval)"
  by (auto simp: getShindo_def split: sum.splits option.splits)

text \<open>A run of the whole pipeline: two samples \<open>\<plusminus>10000\<close> gal north-south, \<open>Ts = 0.15\<close> s.\<close>

lemma rfft_run: "rfft [(10000, 0, 0), (- 10000, 0, 0)] = Inr [(0, 0, 0), (20000, 0, 0)]"
  by (simp add: rfft_def rfft_column_def upt_2 cis_minus_pi)

lemma filter_run:
  "filter_spectra [(0, 0, 0), (20000, 0, 0)] (3 / 20) =
     [(0, 0, 0), (20000 * complex_of_real (W_pe (5 / 3) * W_hc (5 / 3) * W_lc (5 / 3)), 0, 0)]"
  by (simp add: filter_spectra_def filter_weights_def imul_col0_def imul_col1_def imul_col2_def
      upt_2 del: of_real_mult)

lemma irfft_run:
  "irfft [(0, 0, 0), (20000 * complex_of_real w, 0, 0)] = Inr [(10000 * w, 0, 0), (- (10000 * w), 0, 0)]"
  by (simp add: irfft_def irfft_column_def upt_2)

lemma sqrt_axis:
  "0 \<le> c \<Longrightarrow> sqrt (c ^ 2 + 0 ^ 2 + 0 ^ 2) = c"
  "0 \<le> c \<Longrightarrow> sqrt ((- c) ^ 2 + 0 ^ 2 + 0 ^ 2) = c"
  by simp_all

lemma total_accel_run:
  assumes "0 \<le> w"
  shows "total_accel [(10000 * w, 0, 0), (- (10000 * w), 0, 0)] = [10000 * w, 10000 * w]"
proof -
  from assms have c: "0 \<le> 10000 * w" by simp
  show ?thesis
    by (simp only: total_accel_def list.map prod.case sqrt_axis[OF c])
qed

lemma search_aval_run4:
  assumes "2000 \<le> m" shows "search_aval [m, m] (3 / 20) = Some 2000"
  unfolding search_aval_def
  by (rule search_loop_found) (use assms in \<open>simp_all add: T_above_aval_def count_nonzero_def T_ref_def epsilon_def\<close>)

lemma getShindo_run:
  "getShindo [(10000, 0, 0), (- 10000, 0, 0)] (3 / 20) = Some (Inr (intensity_of 2000))"
proof -
  let ?w = "W_pe (5 / 3) * W_hc (5 / 3) * W_lc (5 / 3)"
  have w: "1 / 5 \<le> ?w" by (rule W_at_5_3_ge)
  then have w0: "0 \<le> ?w" by linarith
  from w have "2000 \<le> 10000 * ?w" by linarith
  then have s: "search_aval [10000 * ?w, 10000 * ?w] (3 / 20) = Some 2000"
    by (rule search_aval_run4)
  show ?thesis
    by (simp only: getShindo_def rfft_run filter_run irfft_run sum.case Let_def
        total_accel_run[OF w0] s option.case)
qed

subsection \<open>Facts about the rounding\<close>

lemma rint_cases:
  "rint x = of_int \<lfloor>x\<rfloor> \<or> rint x = of_int (\<lfloor>x\<rfloor> + 1)"
  by (simp add: rint_def Let_def)

lemma rint_is_int: "\<exists>z :: int. rint x = of_int z"
  using rint_cases[of x] by blast

lemma rint_close: "\<bar>rint x - x\<bar> \<le> 1 / 2"
proof -
  have "of_int \<lfloor>x\<rfloor> \<le> x" "x < of_int \<lfloor>x\<rfloor> + 1" by linarith+
  then show ?thesis
    by (auto simp: rint_def Let_def abs_le_iff)
qed

lemma np_round_close: "\<bar>np_round r 2 - r\<bar> \<le> 1 / 200"
proof -
  have "\<bar>rint (r * 100) - r * 100\<bar> \<le> 1 / 2" by (rule rint_close)
  then show ?thesis by (simp add: np_round_def abs_le_iff field_simps)
qed

lemma np_round_hundredths: "\<exists>z :: int. np_round r 2 = of_int z / 100"
  using rint_is_int[of "r * 100"] by (auto simp: np_round_def)

lemma floor_tenths:
  "real_of_int \<lfloor>y * 10\<rfloor> / 10 \<le> y \<and> y < real_of_int \<lfloor>y * 10\<rfloor> / 10 + 1 / 10"
proof -
  have "of_int \<lfloor>y * 10\<rfloor> \<le> y * 10" "y * 10 < of_int \<lfloor>y * 10\<rfloor> + 1" by linarith+
  then show ?thesis by (simp add: field_simps)
qed

lemma log10_2_bounds: "3 / 10 \<le> log 10 2" "log 10 2 < 13 / 43"
proof -
  have le: "(10 :: real) ^ 3 \<le> 2 ^ 10" by simp
  have "real 3 = log 10 ((10 :: real) ^ 3)" by (rule log_pow_cancel[symmetric]) simp_all
  also have "\<dots> \<le> log 10 (2 ^ 10)"
    using le by (subst log_le_cancel_iff) simp_all
  also have "\<dots> = real 10 * log 10 2" by (rule log_nat_power) simp
  finally show "3 / 10 \<le> log 10 2" by simp
  have less: "(2 :: real) ^ 43 < 10 ^ 13" by simp
  have "real 43 * log 10 2 = log 10 ((2 :: real) ^ 43)" by (rule log_nat_power[symmetric]) simp
  also have "\<dots> < log 10 (10 ^ 13)"
    using less by (subst log_less_cancel_iff) simp_all
  also have "\<dots> = real 13" by (rule log_pow_cancel) simp_all
  finally show "log 10 2 < 13 / 43" by simp
qed

lemma log10_2000_bounds: "33 / 10 \<le> log 10 2000" "log 10 2000 < 142 / 43"
proof -
  have "log 10 2000 = log 10 (2 * 10 ^ 3)" by simp
  also have "\<dots> = log 10 2 + log 10 (10 ^ 3)" by (rule log_mult_pos) simp_all
  also have "log 10 ((10 :: real) ^ 3) = real 3" by (rule log_pow_cancel) simp_all
  finally have eq: "log 10 2000 = log 10 2 + 3" by simp
  from log10_2_bounds show "33 / 10 \<le> log 10 2000" "log 10 2000 < 142 / 43"
    unfolding eq by simp_all
qed

lemma rint_754: "754 \<le> x \<Longrightarrow> x < 754 + 1 / 2 \<Longrightarrow> rint x = 754"
proof -
  assume a: "754 \<le> x" "x < 754 + 1 / 2"
  then have fl: "\<lfloor>x\<rfloor> = 754" by linarith
  with a show ?thesis by (simp add: rint_def Let_def)
qed

lemma intensity_7_5:
  assumes "33 / 10 \<le> L" and "L < 142 / 43"
  shows "real_of_int \<lfloor>np_round (2 * L + 0.94) 2 * 10\<rfloor> / 10 = 7.5"
proof -
  from assms have "754 \<le> (2 * L + 0.94) * 10 ^ 2" "(2 * L + 0.94) * 10 ^ 2 < 754 + 1 / 2"
    by simp_all
  then have "rint ((2 * L + 0.94) * 10 ^ 2) = 754" by (rule rint_754)
  then have "np_round (2 * L + 0.94) 2 * 10 = 754 / 10" by (simp only: np_round_def) simp
  then have "\<lfloor>np_round (2 * L + 0.94) 2 * 10\<rfloor> = \<lfloor>754 / 10 :: real\<rfloor>" by (rule arg_cong)
  also have "\<dots> = 75" by linarith
  finally have "real_of_int \<lfloor>np_round (2 * L + 0.94) 2 * 10\<rfloor> / 10 = real_of_int 75 / 10"
    by (rule arg_cong)
  also have "\<dots> = 7.5" by simp
  finally show ?thesis .
qed

lemma intensity_of_2000: "intensity_of 2000 = 7.5"
  unfolding intensity_of_def Let_def
  by (rule intensity_7_5) (rule log10_2000_bounds)+

subsection \<open>Facts about the store\<close>

lemma lookup_update:
  "p < length h \<Longrightarrow> lookup (h[p := v]) q = (if q = p then Some v else lookup h q)"
  by (simp add: lookup_def)

lemma lookup_Some_less: "lookup h p = Some v \<Longrightarrow> p < length h"
  by (simp add: lookup_def split: if_splits)

lemma lookup_append_old: "p < length h \<Longrightarrow> lookup (h @ hs) p = lookup h p"
  by (simp add: lookup_def nth_append)

lemma lookup_append_new: "lookup (h @ v # hs) (length h) = Some v"
  by (simp add: lookup_def)

lemma imul_at_eq:
  "lookup h p = Some (Complex3 rows) \<Longrightarrow> imul_at imul W p h = Inr (h[p := Complex3 (imul W rows)])"
  by (simp add: imul_at_def)

lemma filter_store_eq:
  assumes "lookup h p = Some (Complex3 rows)"
  shows "filter_store p Ts h = Inr (h[p := Complex3 (filter_spectra rows Ts)])"
proof -
  let ?W = "filter_weights (length rows) Ts"
  from assms have p: "p < length h" by (rule lookup_Some_less)
  let ?h1 = "h[p := Complex3 (imul_col0 ?W rows)]"
  let ?h2 = "?h1[p := Complex3 (imul_col1 ?W (imul_col0 ?W rows))]"
  have 0: "imul_at imul_col0 ?W p h = Inr ?h1" using assms by (rule imul_at_eq)
  have l1: "lookup ?h1 p = Some (Complex3 (imul_col0 ?W rows))"
    using p by (simp add: lookup_update)
  have 1: "imul_at imul_col1 ?W p ?h1 = Inr ?h2" using l1 by (rule imul_at_eq)
  have l2: "lookup ?h2 p = Some (Complex3 (imul_col1 ?W (imul_col0 ?W rows)))"
    using p by (simp add: lookup_update)
  have 2: "imul_at imul_col2 ?W p ?h2 =
      Inr (?h2[p := Complex3 (imul_col2 ?W (imul_col1 ?W (imul_col0 ?W rows)))])"
    using l2 by (rule imul_at_eq)
  show ?thesis
    by (simp only: filter_store_def assms option.case ndarray.case Let_def 0 1 2 sum.case)
       (simp only: list_update_overwrite filter_spectra_def Let_def)
qed

lemma getShindo_store_eq:
  assumes "lookup h a = Some (Real3 samples)"
  shows "getShindo_store a Ts h =
    (case rfft samples of
       Inl e \<Rightarrow> Some (h, Inl e)
     | Inr A \<Rightarrow>
         (case irfft (filter_spectra A Ts) of
            Inl e \<Rightarrow> Some (h @ [Complex3 (filter_spectra A Ts)], Inl e)
          | Inr afil \<Rightarrow>
              (case search_aval (total_accel afil) Ts of
                 None \<Rightarrow> None
               | Some aval \<Rightarrow>
                   Some (h @ [Complex3 (filter_spectra A Ts), Real3 afil, Real1 (total_accel afil)],
                         Inr (intensity_of aval)))))"
proof (cases "rfft samples")
  case (Inl e)
  then show ?thesis by (simp add: getShindo_store_def assms)
next
  case (Inr A)
  have f: "filter_store (length h) Ts (h @ [Complex3 A]) = Inr (h @ [Complex3 (filter_spectra A Ts)])"
    using filter_store_eq[of "h @ [Complex3 A]" "length h" A Ts] by (simp add: lookup_append_new)
  have l: "lookup (h @ [Complex3 (filter_spectra A Ts)]) (length h) = Some (Complex3 (filter_spectra A Ts))"
    by (rule lookup_append_new)
  show ?thesis
    by (simp add: getShindo_store_def assms Inr new_array_def f l split: sum.splits option.splits)
qed

lemma getShindo_store_no_array:
  assumes "\<And>samples. lookup h a \<noteq> Some (Real3 samples)"
  shows "getShindo_store a Ts h = Some (h, Inl TypeError)"
  using assms by (simp add: getShindo_store_def split: option.splits ndarray.splits)

lemma getShindo_store_result:
  assumes "lookup h a = Some (Real3 samples)" and "getShindo_store a Ts h = Some (h', r)"
  shows "getShindo samples Ts = Some r"
  using assms(2) unfolding getShindo_store_eq[OF assms(1)] getShindo_def
  by (auto split: sum.splits option.splits)

lemma getShindo_store_extends:
  assumes "getShindo_store a Ts h = Some (h', r)"
  shows "\<exists>hs. h' = h @ hs"
proof (cases "\<exists>samples. lookup h a = Some (Real3 samples)")
  case True
  then obtain samples where s: "lookup h a = Some (Real3 samples)" by blast
  from assms show ?thesis
    unfolding getShindo_store_eq[OF s] by (auto split: sum.splits option.splits)
next
  case False
  then have "getShindo_store a Ts h = Some (h, Inl TypeError)"
    by (intro getShindo_store_no_array) simp
  with assms show ?thesis by simp
qed

lemma getShindo_store_spectrum:
  assumes "lookup h a = Some (Real3 samples)" and "getShindo_store a Ts h = Some (h', r)"
    and "rfft samples = Inr A"
  shows "lookup h' (length h) = Some (Complex3 (filter_spectra A Ts))"
  using assms(2) unfolding getShindo_store_eq[OF assms(1)] assms(3)
  by (auto simp: lookup_def split: sum.splits option.splits)

subsection \<open>Claims about getShindo\<close>




text \<open>
  C5. \<^verbatim>\<open>getShindo\<close> returns \<open>I\<close> exactly when the transforms succeed, the search
  returns an a value, and \<open>I = floor (round (2 * log10 aval + 0.94, 2) * 10) / 10\<close>.
  The rounding \<open>np_round r 2\<close> is \<open>rint (r * 100) / 100\<close>, a multiple of 0.01 within
  0.005 of \<open>r\<close>, and the floor step gives the largest multiple of 0.1 not above it.
\<close>

theorem getShindo_intensity_formula:
  "(getShindo a Ts = Some (Inr I) \<longleftrightarrow>
      (\<exists>A afil aval. rfft a = Inr A \<and> irfft (filter_spectra A Ts) = Inr afil \<and>
         search_aval (total_accel afil) Ts = Some aval \<and>
         I = real_of_int \<lfloor>np_round (2 * log 10 aval + 0.94) 2 * 10\<rfloor> / 10)) \<and>
   np_round r 2 = rint (r * 100) / 100 \<and>
   (\<exists>z :: int. np_round r 2 = real_of_int z / 100) \<and>
   \<bar>np_round r 2 - r\<bar> \<le> 1 / 200 \<and>
   real_of_int \<lfloor>np_round r 2 * 10\<rfloor> / 10 \<le> np_round r 2 \<and>
   np_round r 2 < real_of_int \<lfloor>np_round r 2 * 10\<rfloor> / 10 + 1 / 10"
proof -
  have "getShindo a Ts = Some (Inr I) \<longleftrightarrow>
      (\<exists>A afil aval. rfft a = Inr A \<and> irfft (filter_spectra A Ts) = Inr afil \<and>
         search_aval (total_accel afil) Ts = Some aval \<and>
         I = real_of_int \<lfloor>np_round (2 * log 10 aval + 0.94) 2 * 10\<rfloor> / 10)"
    unfolding getShindo_value_iff intensity_of_def Let_def by (rule refl)
  moreover have "np_round r 2 = rint (r * 100) / 100" by (simp add: np_round_def)
  moreover note np_round_hundredths[of r] np_round_close[of r] floor_tenths[of "np_round r 2"]
  ultimately show ?thesis by blast
qed

theorem getShindo_intensity_formula_witness:
  "getShindo [(10000, 0, 0), (- 10000, 0, 0)] (3 / 20) = Some (Inr 7.5)"
proof -
  let ?w = "W_pe (5 / 3) * W_hc (5 / 3) * W_lc (5 / 3)"
  have w: "1 / 5 \<le> ?w" by (rule W_at_5_3_ge)
  then have w0: "0 \<le> ?w" by linarith
  from w have "2000 \<le> 10000 * ?w" by linarith
  then have s: "search_aval [10000 * ?w, 10000 * ?w] (3 / 20) = Some 2000"
    by (rule search_aval_run4)
  have i: "irfft (filter_spectra [(0, 0, 0), (20000, 0, 0)] (3 / 20)) =
      Inr [(10000 * ?w, 0, 0), (- (10000 * ?w), 0, 0)]"
    by (simp only: filter_run irfft_run)
  have t: "search_aval (total_accel [(10000 * ?w, 0, 0), (- (10000 * ?w), 0, 0)]) (3 / 20) = Some 2000"
    by (simp only: total_accel_run[OF w0] s)
  have v: "(7.5 :: real) = real_of_int \<lfloor>np_round (2 * log 10 2000 + 0.94) 2 * 10\<rfloor> / 10"
    using intensity_of_2000 by (simp only: intensity_of_def Let_def)
  have "\<exists>A afil aval. rfft [(10000, 0, 0), (- 10000, 0, 0)] = Inr A \<and>
      irfft (filter_spectra A (3 / 20)) = Inr afil \<and>
      search_aval (total_accel afil) (3 / 20) = Some aval \<and>
      (7.5 :: real) = real_of_int \<lfloor>np_round (2 * log 10 aval + 0.94) 2 * 10\<rfloor> / 10"
    using rfft_run i t v by blast
  then show ?thesis
    by (rule getShindo_intensity_formula [THEN conjunct1, THEN iffD2])
qed

text \<open>
  C9. \<^verbatim>\<open>getShindo\<close> never mutates the caller's array. Whenever the call ends, with
  a value or with an error, every array that was in the store before the call is
  unchanged, the caller's among them; the store has only grown. The forward transform
  puts the spectrum into a new array at the first free address, and that array is the
  one the filter has written to; the outcome is that of \<^verbatim>\<open>getShindo\<close> on the values.
\<close>

theorem getShindo_store_frame:
  assumes "getShindo_store a Ts h = Some (h', r)"
  shows "take (length h) h' = h \<and> length h \<le> length h' \<and> lookup h' a = lookup h a \<and>
     (lookup h a = Some (Real3 samples) \<longrightarrow>
        getShindo samples Ts = Some r \<and>
        (rfft samples = Inr A \<longrightarrow> lookup h' (length h) = Some (Complex3 (filter_spectra A Ts))))"
proof -
  from getShindo_store_extends[OF assms] obtain hs where h': "h' = h @ hs" by blast
  then have "take (length h) h' = h" "length h \<le> length h'" by simp_all
  moreover have "lookup h' a = lookup h a"
  proof (cases "a < length h")
    case True
    then show ?thesis unfolding h' by (rule lookup_append_old)
  next
    case False
    then have "\<And>samples. lookup h a \<noteq> Some (Real3 samples)" by (simp add: lookup_def)
    then have "getShindo_store a Ts h = Some (h, Inl TypeError)" by (rule getShindo_store_no_array)
    with assms show ?thesis by simp
  qed
  moreover have "getShindo samples Ts = Some r" if "lookup h a = Some (Real3 samples)"
    using that assms by (rule getShindo_store_result)
  moreover have "lookup h' (length h) = Some (Complex3 (filter_spectra A Ts))"
    if "lookup h a = Some (Real3 samples)" "rfft samples = Inr A"
    using that(1) assms that(2) by (rule getShindo_store_spectrum)
  ultimately show ?thesis by blast
qed

theorem getShindo_store_frame_witness:
  "getShindo_store 0 (3 / 20) [Real3 [(10000, 0, 0), (- 10000, 0, 0)]] =
     Some ([Real3 [(10000, 0, 0), (- 10000, 0, 0)],
            Complex3 [(0, 0, 0), (20000 * complex_of_real (W_pe (5 / 3) * W_hc (5 / 3) * W_lc (5 / 3)), 0, 0)],
            Real3 [(10000 * (W_pe (5 / 3) * W_hc (5 / 3) * W_lc (5 / 3)), 0, 0),
                   (- (10000 * (W_pe (5 / 3) * W_hc (5 / 3) * W_lc (5 / 3))), 0, 0)],
            Real1 [10000 * (W_pe (5 / 3) * W_hc (5 / 3) * W_lc (5 / 3)),
                   10000 * (W_pe (5 / 3) * W_hc (5 / 3) * W_lc (5 / 3))]],
           Inr 7.5) \<and>
   lookup [Real3 [(10000, 0, 0), (- 10000, 0, 0)],
            Complex3 [(0, 0, 0), (20000 * complex_of_real (W_pe (5 / 3) * W_hc (5 / 3) * W_lc (5 / 3)), 0, 0)],
            Real3 [(10000 * (W_pe (5 / 3) * W_hc (5 / 3) * W_lc (5 / 3)), 0, 0),
                   (- (10000 * (W_pe (5 / 3) * W_hc (5 / 3) * W_lc (5 / 3))), 0, 0)],
            Real1 [10000 * (W_pe (5 / 3) * W_hc (5 / 3) * W_lc (5 / 3)),
                   10000 * (W_pe (5 / 3) * W_hc (5 / 3) * W_lc (5 / 3))]] 0 =
     lookup [Real3 [(10000, 0, 0), (- 10000, 0, 0)]] 0"
proof -
  let ?w = "W_pe (5 / 3) * W_hc (5 / 3) * W_lc (5 / 3)"
  let ?a = "[(10000, 0, 0), (- 10000, 0, 0)] :: (real \<times> real \<times> real) list"
  let ?h' = "[Real3 ?a,
            Complex3 [(0, 0, 0), (20000 * complex_of_real ?w, 0, 0)],
            Real3 [(10000 * ?w, 0, 0), (- (10000 * ?w), 0, 0)],
            Real1 [10000 * ?w, 10000 * ?w]]"
  have w: "1 / 5 \<le> ?w" by (rule W_at_5_3_ge)
  then have w0: "0 \<le> ?w" by linarith
  from w have "2000 \<le> 10000 * ?w" by linarith
  then have s: "search_aval [10000 * ?w, 10000 * ?w] (3 / 20) = Some 2000"
    by (rule search_aval_run4)
  have l: "lookup [Real3 ?a] 0 = Some (Real3 ?a)" by (simp add: lookup_def)
  have run: "getShindo_store 0 (3 / 20) [Real3 ?a] = Some (?h', Inr 7.5)"
    by (simp only: getShindo_store_eq[OF l] rfft_run filter_run irfft_run sum.case
        total_accel_run[OF w0] s option.case intensity_of_2000 append.simps)
  from getShindo_store_frame [OF run, of ?a "[(0, 0, 0), (20000, 0, 0)]"]
  have "lookup ?h' 0 = lookup [Real3 ?a] 0" by blast
  with run show ?thesis by (rule conjI)
qed

subsection \<open>Facts about the rounding of floats\<close>

























subsection \<open>The claim about convergence\<close>




end
